theory Spec2Isabelle
  imports Main
begin

section \<open>Host-language values\<close>

text \<open>
  Strings of the program are character lists.  The characters the code names
  explicitly are the line feed, the carriage return, the space and the two
  string delimiters.
\<close>

abbreviation LF :: char where "LF \<equiv> CHR 0x0A"
abbreviation CR :: char where "CR \<equiv> CHR 0x0D"
abbreviation SPACE :: char where "SPACE \<equiv> CHR 0x20"
abbreviation DQUOTE :: char where "DQUOTE \<equiv> CHR 0x22"
abbreviation SQUOTE :: char where "SQUOTE \<equiv> CHR 0x27"

text \<open>
  The values a record cell can hold, as far as \<open>toCsv\<close> distinguishes them:
  \<open>undefined\<close>, \<open>null\<close>, a string, a function (with its \<open>name\<close>), a date
  (with the text \<open>toISOString()\<close> returns), a DOM element (with its
  \<open>outerHTML\<close> and its \<open>innerHTML\<close>, which may be null), and any other value
  (with the text \<open>toString()\<close> returns).
\<close>

datatype jsvalue =
    Undefined
  | Null
  | Str string
  | Function string
  | Date string
  | HTMLElement string "string option"
  | Other string

text \<open>
  A promise that rejects carries one of: a \<open>SyntaxError\<close> with its message, a
  \<open>TypeError\<close> raised by the runtime on a property access through
  \<open>undefined\<close>, or the value a callback threw.
\<close>

datatype rejection =
    SyntaxError string
  | TypeError
  | Thrown jsvalue

text \<open>Decimal rendering of a non-negative integer (template literals, property keys).\<close>

definition digits :: string where
  "digits = ''0123456789''"

fun number_to_string :: "nat \<Rightarrow> string" where
  "number_to_string n =
     (if n < 10 then [digits ! n]
      else number_to_string (n div 10) @ [digits ! (n mod 10)])"

declare number_to_string.simps [simp del]

section \<open>Cell metadata and the column label\<close>

record CsvCellMetadata =
  columnIndex :: nat
  columnName :: string
  rowIndex :: nat
  cellReferenceA1 :: string
  cellReferenceRC :: string

definition characters :: string where
  "characters = ''ABCDEFGHIJKLMNOPQRSTUVWXYZ''"

text \<open>\<open>s[k]\<close> on a string: \<open>undefined\<close> (here \<open>None\<close>) outside \<open>0 .. length - 1\<close>.\<close>

definition string_index :: "string \<Rightarrow> int \<Rightarrow> char option" where
  "string_index s k = (if 0 \<le> k \<and> k < int (length s) then Some (s ! nat k) else None)"

text \<open>The \<open>while (num > 0)\<close> loop with \<open>out.unshift(num % 26)\<close>.\<close>

function digits_loop :: "int \<Rightarrow> int list \<Rightarrow> int list" where
  "digits_loop num out =
     (if num > 0 then digits_loop (num div 26) ((num mod 26) # out) else out)"
  by pat_completeness auto
termination
  by (relation "measure (\<lambda>(num, out). nat num)") auto

declare digits_loop.simps [simp del]

text \<open>\<open>.join('')\<close>: an \<open>undefined\<close> element contributes the empty string.\<close>

definition join_letters :: "char option list \<Rightarrow> string" where
  "join_letters cs = concat (map (\<lambda>c. case c of None \<Rightarrow> [] | Some ch \<Rightarrow> [ch]) cs)"

definition numberToCharacters :: "int \<Rightarrow> string" where
  "numberToCharacters num =
     (if num = 1 then ''A''
      else
        let out = digits_loop (num - 1) [];
            len = length out
        in join_letters
             (map (\<lambda>(idx, it).
                     string_index characters
                       (if len > 1 \<and> idx < len - 1 then it - 1 else it))
                  (enumerate 0 out)))"

definition csvCellMetadataFactory :: "nat \<Rightarrow> string \<Rightarrow> nat \<Rightarrow> CsvCellMetadata" where
  "csvCellMetadataFactory colIndex colName rowIdx =
     \<lparr> columnIndex = colIndex,
       columnName = colName,
       rowIndex = rowIdx,
       cellReferenceA1 = numberToCharacters (int colIndex) @ number_to_string rowIdx,
       cellReferenceRC = ''R'' @ number_to_string rowIdx @ ''C'' @ number_to_string colIndex \<rparr>"

section \<open>Objects with ordered properties\<close>

text \<open>
  A record of the result is an ordinary object.  It is kept as the list of its
  own properties in enumeration order, which is what \<open>Object.keys\<close> and
  \<open>Object.values\<close> read: array-index keys first, in ascending numeric order,
  then the other keys in the order of their creation.  An array index is a
  canonical decimal string with a value of at most \<open>2^32 - 2\<close>.
\<close>

type_synonym js_object = "(string \<times> jsvalue) list"

definition is_digit :: "char \<Rightarrow> bool" where
  "is_digit c = (48 \<le> (of_char c :: nat) \<and> (of_char c :: nat) \<le> 57)"

definition decimal_value :: "string \<Rightarrow> nat" where
  "decimal_value s = foldl (\<lambda>acc c. 10 * acc + ((of_char c :: nat) - 48)) 0 s"

definition array_index :: "string \<Rightarrow> nat option" where
  "array_index s =
     (if s \<noteq> [] \<and> list_all is_digit s \<and> number_to_string (decimal_value s) = s
         \<and> decimal_value s \<le> 4294967294
      then Some (decimal_value s) else None)"

fun insert_index_key :: "nat \<Rightarrow> string \<Rightarrow> jsvalue \<Rightarrow> js_object \<Rightarrow> js_object" where
  "insert_index_key n k v [] = [(k, v)]"
| "insert_index_key n k v ((k', v') # obj) =
     (case array_index k' of
        Some m \<Rightarrow> if m < n then (k', v') # insert_index_key n k v obj
                  else (k, v) # (k', v') # obj
      | None \<Rightarrow> (k, v) # (k', v') # obj)"

definition object_set :: "js_object \<Rightarrow> string \<Rightarrow> jsvalue \<Rightarrow> js_object" where
  "object_set obj k v =
     (if k \<in> set (map fst obj)
      then map (\<lambda>(k', v'). if k' = k then (k', v) else (k', v')) obj
      else case array_index k of
             Some n \<Rightarrow> insert_index_key n k v obj
           | None \<Rightarrow> obj @ [(k, v)])"

definition fromEntries :: "(string \<times> jsvalue) list \<Rightarrow> js_object" where
  "fromEntries entries = foldl (\<lambda>obj (k, v). object_set obj k v) [] entries"

definition object_keys :: "js_object \<Rightarrow> string list" where
  "object_keys obj = map fst obj"

definition object_values :: "js_object \<Rightarrow> jsvalue list" where
  "object_values obj = map snd obj"

section \<open>The parser\<close>

datatype string_delimiter = SingleQuote | DoubleQuote

fun delimiter_char :: "string_delimiter \<Rightarrow> char" where
  "delimiter_char SingleQuote = SQUOTE"
| "delimiter_char DoubleQuote = DQUOTE"

datatype header_option = HeaderTrue | HeaderList "string list"

text \<open>\<open>csv.split(/\r?\n/g)\<close>: a line ends at a line feed, and a carriage return
  directly before that line feed belongs to the line break.\<close>

fun split_from :: "string \<Rightarrow> string \<Rightarrow> string list" where
  "split_from cur [] = [cur]"
| "split_from cur [c] = (if c = LF then [cur, []] else [cur @ [c]])"
| "split_from cur (c # d # rest) =
     (if c = LF then cur # split_from [] (d # rest)
      else if c = CR \<and> d = LF then cur # split_from [] rest
      else split_from (cur @ [c]) (d # rest))"

definition split_lines :: "string \<Rightarrow> string list" where
  "split_lines csv = split_from [] csv"

text \<open>
  The state of the scan of one line.  \<open>result\<close> is the row \<open>cells[i]\<close> the scan
  writes into, or \<open>None\<close> when \<open>cells[i]\<close> is \<open>undefined\<close>; \<open>currentCell\<close> is
  the index of the cell being built.
\<close>

record scan_state =
  result :: "string list option"
  currentCell :: nat
  inString :: bool

text \<open>
  \<open>result[currentCell] += char\<close>.  Through \<open>undefined\<close> the access raises a
  \<open>TypeError\<close>.  On a row, \<open>currentCell\<close> is always its last index (lemma
  \<open>scan_line_last_index\<close> below), so the cell read exists.
\<close>

definition append_char :: "scan_state \<Rightarrow> char \<Rightarrow> rejection + scan_state" where
  "append_char st ch =
     (case result st of
        None \<Rightarrow> Inl TypeError
      | Some row \<Rightarrow>
          Inr (st\<lparr>result := Some (row[currentCell st := (row ! currentCell st) @ [ch]])\<rparr>))"

text \<open>
  \<open>incrementCell\<close>: \<open>result[++currentCell] = ''\<close>.  The new index is the length
  of the row, so the assignment extends the row by one cell.
\<close>

definition incrementCell :: "scan_state \<Rightarrow> rejection + scan_state" where
  "incrementCell st =
     (case result st of
        None \<Rightarrow> Inl TypeError
      | Some row \<Rightarrow>
          Inr (st\<lparr>currentCell := currentCell st + 1, result := Some (row @ [[]])\<rparr>))"

text \<open>The character loop of one line, with the \<open>switch\<close> in the source's case order.\<close>

fun scan_line :: "string \<Rightarrow> char \<Rightarrow> string \<Rightarrow> scan_state \<Rightarrow> rejection + scan_state" where
  "scan_line separator delim [] st = Inr st"
| "scan_line separator delim (ch # rest) st =
     (if [ch] = separator then
        (if inString st then
           (case append_char st ch of
              Inl e \<Rightarrow> Inl e
            | Inr st' \<Rightarrow> scan_line separator delim rest st')
         else
           (case incrementCell st of
              Inl e \<Rightarrow> Inl e
            | Inr st' \<Rightarrow> scan_line separator delim rest st'))
      else if ch = delim then
        (if inString st \<and> rest \<noteq> [] \<and> hd rest = delim then
           (case append_char st ch of
              Inl e \<Rightarrow> Inl e
            | Inr st' \<Rightarrow> scan_line separator delim (tl rest) st')
         else scan_line separator delim rest (st\<lparr>inString := \<not> inString st\<rparr>))
      else
        (case append_char st ch of
           Inl e \<Rightarrow> Inl e
         | Inr st' \<Rightarrow> scan_line separator delim rest st'))"

text \<open>
  The loop over the lines.  \<open>i\<close> counts all lines, the skipped ones too, and
  the row written into is \<open>cells[i]\<close>, read after the push.  As \<open>i\<close> is never
  below the number of rows pushed before, \<open>cells[i]\<close> is the row just pushed
  or \<open>undefined\<close>.  The scan mutates that row in place; the model writes the
  scanned row back at index \<open>i\<close>.
\<close>

fun tokenize_lines ::
  "string \<Rightarrow> char \<Rightarrow> string list \<Rightarrow> nat \<Rightarrow> string list list \<Rightarrow> rejection + string list list"
where
  "tokenize_lines separator delim [] i cells = Inr cells"
| "tokenize_lines separator delim (line # rest) i cells =
     (if line = [] then tokenize_lines separator delim rest (i + 1) cells
      else
        let pushed = cells @ [[[]]];
            row = (if i < length pushed then Some (pushed ! i) else None)
        in case scan_line separator delim line
                  \<lparr>result = row, currentCell = 0, inString = False\<rparr> of
             Inl e \<Rightarrow> Inl e
           | Inr st \<Rightarrow>
               tokenize_lines separator delim rest (i + 1)
                 (case result st of None \<Rightarrow> pushed | Some row' \<Rightarrow> pushed[i := row']))"

definition tokenize :: "string \<Rightarrow> string \<Rightarrow> string_delimiter \<Rightarrow> rejection + string list list" where
  "tokenize csv separator stringDelimiter =
     tokenize_lines separator (delimiter_char stringDelimiter) (split_lines csv) 0 []"

text \<open>\<open>cells.some(line => line.length !== cells[0].length)\<close>.\<close>

definition some_row_differs :: "string list list \<Rightarrow> bool" where
  "some_row_differs cells =
     (case cells of
        [] \<Rightarrow> False
      | row0 # _ \<Rightarrow> list_ex (\<lambda>line. length line \<noteq> length row0) cells)"

text \<open>
  The callbacks object, as the map from property key to what the \<open>in\<close>
  operator and the property read \<open>callbacks[key]\<close> see: the object's own
  properties and the ones it inherits.  A callback receives the raw cell
  (\<open>line[colIdx]\<close>, \<open>undefined\<close> beyond the row) and the metadata, and returns a
  value or throws; calling a property that is not a function throws a
  \<open>TypeError\<close>.  Every invocation is recorded with the key it was found under
  and its two arguments.
\<close>

type_synonym CsvParserCallbackFunction = "jsvalue \<Rightarrow> CsvCellMetadata \<Rightarrow> rejection + jsvalue"

type_synonym callback_map = "string \<Rightarrow> CsvParserCallbackFunction option"

type_synonym invocation = "string \<times> jsvalue \<times> CsvCellMetadata"

definition array_get :: "string list \<Rightarrow> nat \<Rightarrow> jsvalue" where
  "array_get line colIdx = (if colIdx < length line then Str (line ! colIdx) else Undefined)"

definition project_cell ::
  "callback_map \<Rightarrow> string list \<Rightarrow> nat \<Rightarrow> string \<Rightarrow> nat \<Rightarrow> rejection + (invocation list \<times> jsvalue)"
where
  "project_cell callbacks line rowIdx colName colIdx =
     (let raw = array_get line colIdx;
          metadata = csvCellMetadataFactory (colIdx + 1) colName (rowIdx + 1)
      in case callbacks colName of
           Some f \<Rightarrow>
             (case f raw metadata of
                Inl e \<Rightarrow> Inl e
              | Inr v \<Rightarrow> Inr ([(colName, raw, metadata)], v))
         | None \<Rightarrow>
             (case callbacks (number_to_string colIdx) of
                Some g \<Rightarrow>
                  (case g raw metadata of
                     Inl e \<Rightarrow> Inl e
                   | Inr v \<Rightarrow> Inr ([(number_to_string colIdx, raw, metadata)], v))
              | None \<Rightarrow> Inr ([], raw)))"

text \<open>\<open>headers.map((colName, colIdx) => [colName, ...])\<close> for one row.\<close>

fun project_entries ::
  "callback_map \<Rightarrow> string list \<Rightarrow> nat \<Rightarrow> string list \<Rightarrow> nat
     \<Rightarrow> rejection + (invocation list \<times> (string \<times> jsvalue) list)"
where
  "project_entries callbacks line rowIdx [] colIdx = Inr ([], [])"
| "project_entries callbacks line rowIdx (colName # names) colIdx =
     (case project_cell callbacks line rowIdx colName colIdx of
        Inl e \<Rightarrow> Inl e
      | Inr (log1, v) \<Rightarrow>
          (case project_entries callbacks line rowIdx names (colIdx + 1) of
             Inl e \<Rightarrow> Inl e
           | Inr (log2, entries) \<Rightarrow> Inr (log1 @ log2, (colName, v) # entries)))"

text \<open>\<open>cells.map((line, rowIdx) => Object.fromEntries(headers.map(...)))\<close>.
  \<open>headers\<close> is \<open>undefined\<close> (\<open>None\<close>) when the first row was asked for and
  there is none; \<open>headers.map\<close> is reached only when there is a row.\<close>

fun project_rows ::
  "callback_map \<Rightarrow> string list option \<Rightarrow> string list list \<Rightarrow> nat
     \<Rightarrow> rejection + (invocation list \<times> js_object list)"
where
  "project_rows callbacks headers [] rowIdx = Inr ([], [])"
| "project_rows callbacks headers (line # rest) rowIdx =
     (case headers of
        None \<Rightarrow> Inl TypeError
      | Some names \<Rightarrow>
          (case project_entries callbacks line rowIdx names 0 of
             Inl e \<Rightarrow> Inl e
           | Inr (log1, entries) \<Rightarrow>
               (case project_rows callbacks headers rest (rowIdx + 1) of
                  Inl e \<Rightarrow> Inl e
                | Inr (log2, records) \<Rightarrow> Inr (log1 @ log2, fromEntries entries # records))))"

definition parseCSV_traced ::
  "string \<Rightarrow> string \<Rightarrow> header_option \<Rightarrow> string_delimiter \<Rightarrow> callback_map
     \<Rightarrow> rejection + (invocation list \<times> js_object list)"
where
  "parseCSV_traced csv separator header stringDelimiter callbacks =
     (case tokenize csv separator stringDelimiter of
        Inl e \<Rightarrow> Inl e
      | Inr cells \<Rightarrow>
          if some_row_differs cells then Inl (SyntaxError ''Malformed CSV'')
          else
            let headers = (case header of
                             HeaderTrue \<Rightarrow> (case cells of [] \<Rightarrow> None | row0 # _ \<Rightarrow> Some row0)
                           | HeaderList names \<Rightarrow> Some names);
                rows = (case header of HeaderTrue \<Rightarrow> tl cells | HeaderList names \<Rightarrow> cells)
            in project_rows callbacks headers rows 0)"

text \<open>The promise of \<open>parseCSV\<close>: the records it resolves to, or its rejection.\<close>

definition parseCSV ::
  "string \<Rightarrow> string \<Rightarrow> header_option \<Rightarrow> string_delimiter \<Rightarrow> callback_map
     \<Rightarrow> rejection + js_object list"
where
  "parseCSV csv separator header stringDelimiter callbacks =
     (case parseCSV_traced csv separator header stringDelimiter callbacks of
        Inl e \<Rightarrow> Inl e
      | Inr (log, records) \<Rightarrow> Inr records)"

text \<open>The default of the separator.\<close>

definition default_separator :: string where
  "default_separator = '',''"

text \<open>
  The default of the callbacks, the object literal \<open>{}\<close>.  It has no property
  of its own; \<open>in\<close> and the property read see the twelve properties it
  inherits from \<open>Object.prototype\<close>.  Called as \<open>callbacks[key](raw, metadata)\<close>
  on \<open>{}\<close>: \<open>constructor\<close> wraps the raw string in a String object (and
  makes a new object of \<open>undefined\<close>);
  \<open>toString\<close> and \<open>toLocaleString\<close> return \<open>[object Object]\<close>; \<open>valueOf\<close>
  returns the object itself; \<open>hasOwnProperty\<close>, \<open>isPrototypeOf\<close> and
  \<open>propertyIsEnumerable\<close> return \<open>false\<close>; \<open>__defineGetter__\<close> and
  \<open>__defineSetter__\<close> throw, the metadata not being a function;
  \<open>__lookupGetter__\<close> and \<open>__lookupSetter__\<close> return the accessor of
  \<open>__proto__\<close> when asked for it and \<open>undefined\<close> otherwise; \<open>__proto__\<close> is
  an object, and calling it throws.
\<close>

definition default_callbacks :: callback_map where
  "default_callbacks key =
     (if key = ''constructor'' then
        Some (\<lambda>raw metadata.
                Inr (case raw of
                       Str s \<Rightarrow> Other s
                     | Undefined \<Rightarrow> Other ''[object Object]''
                     | Null \<Rightarrow> Other ''[object Object]''
                     | v \<Rightarrow> v))
      else if key = ''toString'' then Some (\<lambda>raw metadata. Inr (Str ''[object Object]''))
      else if key = ''toLocaleString'' then Some (\<lambda>raw metadata. Inr (Str ''[object Object]''))
      else if key = ''valueOf'' then Some (\<lambda>raw metadata. Inr (Other ''[object Object]''))
      else if key = ''hasOwnProperty'' then Some (\<lambda>raw metadata. Inr (Other ''false''))
      else if key = ''isPrototypeOf'' then Some (\<lambda>raw metadata. Inr (Other ''false''))
      else if key = ''propertyIsEnumerable'' then Some (\<lambda>raw metadata. Inr (Other ''false''))
      else if key = ''__defineGetter__'' then Some (\<lambda>raw metadata. Inl TypeError)
      else if key = ''__defineSetter__'' then Some (\<lambda>raw metadata. Inl TypeError)
      else if key = ''__lookupGetter__'' then
        Some (\<lambda>raw metadata.
                Inr (if raw = Str ''__proto__'' then Function ''get __proto__'' else Undefined))
      else if key = ''__lookupSetter__'' then
        Some (\<lambda>raw metadata.
                Inr (if raw = Str ''__proto__'' then Function ''set __proto__'' else Undefined))
      else if key = ''__proto__'' then Some (\<lambda>raw metadata. Inl TypeError)
      else None)"

section \<open>The serializer\<close>

text \<open>\<open>s.includes(sub)\<close> and \<open>s.indexOf(sub)\<close>.\<close>

fun starts_with :: "string \<Rightarrow> string \<Rightarrow> bool" where
  "starts_with s [] = True"
| "starts_with [] (p # ps) = False"
| "starts_with (c # s) (p # ps) = (c = p \<and> starts_with s ps)"

fun string_includes :: "string \<Rightarrow> string \<Rightarrow> bool" where
  "string_includes [] sub = (sub = [])"
| "string_includes (c # s) sub = (if starts_with (c # s) sub then True else string_includes s sub)"

fun index_of_from :: "nat \<Rightarrow> string \<Rightarrow> string \<Rightarrow> int" where
  "index_of_from i [] sub = (if sub = [] then int i else - 1)"
| "index_of_from i (c # s) sub =
     (if starts_with (c # s) sub then int i else index_of_from (i + 1) s sub)"

definition indexOf :: "string \<Rightarrow> string \<Rightarrow> int" where
  "indexOf s sub = index_of_from 0 s sub"

text \<open>\<open>s.slice(0, e)\<close>: a negative end counts from the end of the string.\<close>

definition slice_to :: "string \<Rightarrow> int \<Rightarrow> string" where
  "slice_to s e = (if e < 0 then take (nat (int (length s) + e)) s else take (nat e) s)"

text \<open>The chain of tests that turns a value into the text of its cell.\<close>

fun stringify :: "jsvalue \<Rightarrow> string" where
  "stringify Undefined = []"
| "stringify Null = []"
| "stringify (Function name) = ''[function '' @ name @ '']''"
| "stringify (Date isoString) = isoString"
| "stringify (HTMLElement outerHTML innerHTML) =
     (case innerHTML of
        Some inner \<Rightarrow> slice_to outerHTML (indexOf outerHTML inner)
      | None \<Rightarrow> outerHTML)"
| "stringify (Str s) = s"
| "stringify (Other s) = s"

text \<open>\<open>cell.replace(new RegExp(stringDelimiter, 'g'), ...)\<close>: both delimiters are
  plain characters in a regular expression, so every occurrence is replaced.\<close>

definition replace_char :: "char \<Rightarrow> string \<Rightarrow> string \<Rightarrow> string" where
  "replace_char d rep cell = concat (map (\<lambda>c. if c = d then rep else [c]) cell)"

text \<open>The function mapped over every cell of the output grid.\<close>

definition quote_cell :: "string \<Rightarrow> string_delimiter \<Rightarrow> string \<Rightarrow> string" where
  "quote_cell separator stringDelimiter cell =
     (let d = delimiter_char stringDelimiter
      in if string_includes cell [DQUOTE] then [d] @ replace_char d [d, d] cell @ [d]
         else if string_includes cell [SPACE] \<or> string_includes cell separator then [d] @ cell @ [d]
         else cell)"

fun join :: "string \<Rightarrow> string list \<Rightarrow> string" where
  "join sep [] = []"
| "join sep [x] = x"
| "join sep (x # y # xs) = x @ sep @ join sep (y # xs)"

datatype data_argument = NullData | UndefinedData | ArrayData "js_object list"

text \<open>The grid \<open>csv\<close> the two loops build: the keys of the first record, then
  for every record the texts of its values.\<close>

definition csv_grid :: "js_object \<Rightarrow> js_object list \<Rightarrow> string list list" where
  "csv_grid first records =
     object_keys first # map (\<lambda>rowData. map stringify (object_values rowData)) records"

definition toCsv :: "data_argument \<Rightarrow> string \<Rightarrow> string_delimiter \<Rightarrow> rejection + string" where
  "toCsv data separator stringDelimiter =
     (case data of
        NullData \<Rightarrow> Inl (SyntaxError ''data not provided'')
      | UndefinedData \<Rightarrow> Inl (SyntaxError ''data not provided'')
      | ArrayData records \<Rightarrow>
          (case records of
             [] \<Rightarrow> Inl (SyntaxError ''data not provided'')
           | first # _ \<Rightarrow>
               Inr (join [LF]
                      (map (\<lambda>row. join separator
                                     (map (quote_cell separator stringDelimiter) row))
                           (csv_grid first records)))))"

section \<open>Auxiliary notions for the statements\<close>

text \<open>The invocations of a log that concern one column (metadata carry the
  1-based column index).\<close>

definition invocations_of_column :: "nat \<Rightarrow> invocation list \<Rightarrow> invocation list" where
  "invocations_of_column colIdx log =
     filter (\<lambda>(key, raw, metadata). columnIndex metadata = colIdx + 1) log"

text \<open>A callbacks object without a property, own or inherited, under any of
  the given column names or under the index of any of these columns.\<close>

definition unkeyed :: "callback_map \<Rightarrow> string list \<Rightarrow> bool" where
  "unkeyed callbacks names =
     list_all (\<lambda>key. callbacks key = None)
       (names @ map number_to_string [0 ..< length names])"

text \<open>The first row of the tokenized grid, the header row under \<open>header: true\<close>.\<close>

definition header_row :: "string \<Rightarrow> string \<Rightarrow> string_delimiter \<Rightarrow> string list" where
  "header_row csv separator stringDelimiter =
     (case tokenize csv separator stringDelimiter of
        Inl e \<Rightarrow> []
      | Inr cells \<Rightarrow> (case cells of [] \<Rightarrow> [] | row0 # rows \<Rightarrow> row0))"

text \<open>A callback map with a callback under the name \<open>id\<close> and a throwing
  callback under the index \<open>0\<close>, for trying the projection.\<close>

definition sample_callbacks :: callback_map where
  "sample_callbacks =
     (\<lambda>key. if key = ''id'' then Some (\<lambda>raw metadata. Inr (Other ''7''))
            else if key = ''0'' then Some (\<lambda>raw metadata. Inl (Thrown Null))
            else None)"


text \<open>A cell the serializer quotes correctly: when it contains the delimiter,
  it also contains the double quote the serializer tests for.  Every cell is
  such a cell when the delimiter is the double quote.\<close>

definition quoting_safe :: "string_delimiter \<Rightarrow> string \<Rightarrow> bool" where
  "quoting_safe stringDelimiter cell =
     (if delimiter_char stringDelimiter \<in> set cell then DQUOTE \<in> set cell else True)"

text \<open>The enumeration order of property keys, and the objects that respect it.\<close>

definition key_before :: "string \<Rightarrow> string \<Rightarrow> bool" where
  "key_before k1 k2 =
     (case array_index k1 of
        Some a \<Rightarrow> (case array_index k2 of Some b \<Rightarrow> a < b | None \<Rightarrow> True)
      | None \<Rightarrow> array_index k2 = None)"

definition canonical :: "js_object \<Rightarrow> bool" where
  "canonical obj = (distinct (map fst obj) \<and> sorted_wrt key_before (map fst obj))"

text \<open>Invariants of the scan: the current cell is the last cell of the row, and
  all characters of the cells are in a given set.\<close>

definition scan_inv :: "char set \<Rightarrow> scan_state \<Rightarrow> bool" where
  "scan_inv A st =
     (case result st of
        None \<Rightarrow> False
      | Some row \<Rightarrow>
          currentCell st + 1 = length row \<and> list_all (\<lambda>cell. set cell \<subseteq> A) row)"

definition row_within :: "char set \<Rightarrow> string list \<Rightarrow> bool" where
  "row_within A row = (row \<noteq> [] \<and> list_all (\<lambda>cell. set cell \<subseteq> A) row)"

text \<open>The values that are strings.\<close>

fun is_string :: "jsvalue \<Rightarrow> bool" where
  "is_string (Str s) = True"
| "is_string v = False"

section \<open>Evaluation on concrete inputs\<close>

lemmas eval_defs =
  tokenize_def split_lines_def append_char_def incrementCell_def some_row_differs_def
  parseCSV_def parseCSV_traced_def project_cell_def array_get_def fromEntries_def object_set_def
  array_index_def is_digit_def decimal_value_def number_to_string.simps digits_def
  default_callbacks_def Let_def

section \<open>Values of the column label\<close>

text \<open>
  Claim C1.  The column label of index 1 is A, of 26 is Z, of 27 is AA, of 52
  is AZ, of 53 is BA and of 703 is AAA, as the claim says.  For index 702 the
  claim says ZZ; the code computes AZ: the digits of 701 are 1, 0, 25, the
  middle digit is lowered to -1, which is outside the letter table, and the
  join drops it.
\<close>

theorem numberToCharacters_values:
  "numberToCharacters 1 = ''A'' \<and> numberToCharacters 26 = ''Z''
   \<and> numberToCharacters 27 = ''AA'' \<and> numberToCharacters 52 = ''AZ''
   \<and> numberToCharacters 53 = ''BA'' \<and> numberToCharacters 703 = ''AAA''
   \<and> numberToCharacters 702 = ''AZ'' \<and> numberToCharacters 702 \<noteq> ''ZZ''"
  by code_simp

section \<open>Properties of the tokenizer\<close>

text \<open>On a row, the scan keeps \<open>currentCell\<close> at the last index of the row;
  without a row it never acquires one.\<close>

lemma scan_line_last_index:
  "scan_line separator delim line st = Inr st' \<Longrightarrow> result st = Some row \<Longrightarrow>
   currentCell st + 1 = length row \<Longrightarrow>
   \<exists>row'. result st' = Some row' \<and> currentCell st' + 1 = length row'"
proof (induction separator delim line st arbitrary: row rule: scan_line.induct)
  case (1 separator delim st)
  then show ?case by simp
next
  case (2 separator delim ch rest st)
  show ?case
  proof (cases "[ch] = separator")
    case True
    then show ?thesis
      using "2.prems" "2.IH"(1,2)
      by (cases "inString st")
         (fastforce simp: append_char_def incrementCell_def split: sum.splits)+
  next
    case False
    then show ?thesis
      using "2.prems" "2.IH"(3,4,5)
      by (cases "ch = delim"; cases "inString st \<and> rest \<noteq> [] \<and> hd rest = delim")
         (fastforce simp: append_char_def split: sum.splits if_splits)+
  qed
qed

lemma scan_line_no_row:
  "scan_line separator delim line st = Inr st' \<Longrightarrow> result st = None \<Longrightarrow> result st' = None"
proof (induction separator delim line st rule: scan_line.induct)
  case (1 separator delim st)
  then show ?case by simp
next
  case (2 separator delim ch rest st)
  then show ?case
    by (auto simp: append_char_def incrementCell_def split: if_splits)
qed

text \<open>
  Claim C2.  The claim says that every empty line is skipped and every other
  line gives one row, also when an empty line stands between two non-empty
  lines.  On the text of the three lines \<open>a\<close>, empty, \<open>b\<close> the code rejects
  with a TypeError: the third line has index 2, the pushed row has index 1,
  and \<open>cells[2]\<close> is \<open>undefined\<close>.
\<close>

theorem empty_line_between_rows_rejects:
  \<open>split_lines ''a\<newline>\<newline>b'' = [''a'', [], ''b'']
   \<and> tokenize ''a\<newline>\<newline>b'' '','' DoubleQuote = Inl TypeError
   \<and> parseCSV ''a\<newline>\<newline>b'' '','' HeaderTrue DoubleQuote default_callbacks = Inl TypeError\<close>
  by (simp add: eval_defs)

text \<open>
  Claim C6.  Inside a quoted field (\<open>inString\<close> set, a row present) the
  separator character is appended to the current cell and no cell is started;
  and the line \<open>a,"b,c",d\<close> gives the three cells \<open>a\<close>, \<open>b,c\<close>, \<open>d\<close>.
\<close>

theorem separator_inside_quotes:
  assumes "inString st" and "result st = Some row"
  shows \<open>scan_line [s] d (s # rest) st =
           scan_line [s] d rest
             (st\<lparr>result := Some (row[currentCell st := (row ! currentCell st) @ [s]])\<rparr>)
         \<and> tokenize ''a,"b,c",d'' '','' DoubleQuote = Inr [[''a'', ''b,c'', ''d'']]\<close>
  using assms by (simp add: eval_defs)

theorem separator_inside_quotes_witness:
  \<open>scan_line '','' DQUOTE '',c"'' \<lparr>result = Some [''a'', ''b''], currentCell = 1, inString = True\<rparr>
     = Inr \<lparr>result = Some [''a'', ''b,c''], currentCell = 1, inString = False\<rparr>\<close>
  using separator_inside_quotes
          [of "\<lparr>result = Some [''a'', ''b''], currentCell = 1, inString = True\<rparr>"
              "[''a'', ''b'']" "CHR '',''" DQUOTE \<open>''c"''\<close>]
  by (simp add: append_char_def)

text \<open>
  Claim C7.  Inside a quoted field, a delimiter directly followed by a second
  delimiter appends one delimiter to the current cell and the scan goes on
  after both characters; and the line \<open>"he said ""hi"""\<close> gives the single
  cell \<open>he said "hi"\<close>.  The delimiter differs from the separator, whose case
  comes first in the switch.
\<close>

theorem doubled_delimiter_escape:
  assumes "inString st" and "result st = Some row" and "separator \<noteq> [d]"
  shows \<open>scan_line separator d (d # d # rest) st =
           scan_line separator d rest
             (st\<lparr>result := Some (row[currentCell st := (row ! currentCell st) @ [d]])\<rparr>)
         \<and> tokenize ''"he said ""hi"""'' '','' DoubleQuote = Inr [[''he said "hi"'']]\<close>
  using assms by (auto simp add: eval_defs)

theorem doubled_delimiter_escape_witness:
  \<open>scan_line '','' DQUOTE ''""x"'' \<lparr>result = Some [''a''], currentCell = 0, inString = True\<rparr>
     = Inr \<lparr>result = Some [''a"x''], currentCell = 0, inString = False\<rparr>\<close>
  using doubled_delimiter_escape
          [of "\<lparr>result = Some [''a''], currentCell = 0, inString = True\<rparr>"
              "[''a'']" "'',''" DQUOTE \<open>''x"''\<close>]
  by (simp add: append_char_def)

section \<open>Shape validation and empty input\<close>

lemma tokenize_lines_all_empty:
  "list_all (\<lambda>line. line = []) lines \<Longrightarrow>
   tokenize_lines separator delim lines i cells = Inr cells"
  by (induction lines arbitrary: i) auto

text \<open>
  When the loop over the lines returns a grid, and the grid has a row whose
  number of cells differs from that of row 0, \<open>parseCSV\<close> rejects with the
  SyntaxError \<open>Malformed CSV\<close>, whatever the header option and the callbacks;
  a rejection carries no records.
\<close>

theorem non_rectangular_rejects:
  assumes "tokenize csv separator stringDelimiter = Inr cells"
      and "row \<in> set cells" and "length row \<noteq> length (cells ! 0)"
  shows "parseCSV csv separator header stringDelimiter callbacks
           = Inl (SyntaxError ''Malformed CSV'')"
proof -
  from assms(2) obtain row0 rest where "cells = row0 # rest"
    by (cases cells) auto
  with assms(2,3) have "some_row_differs cells"
    unfolding some_row_differs_def by (auto simp: list_ex_iff)
  with assms(1) show ?thesis
    by (simp add: parseCSV_def parseCSV_traced_def)
qed

theorem non_rectangular_rejects_witness:
  \<open>tokenize ''a,b\<newline>c'' '','' DoubleQuote = Inr [[''a'', ''b''], [''c'']]
   \<and> parseCSV ''a,b\<newline>c'' '','' HeaderTrue DoubleQuote default_callbacks
       = Inl (SyntaxError ''Malformed CSV'')\<close>
proof -
  have t: \<open>tokenize ''a,b\<newline>c'' '','' DoubleQuote = Inr [[''a'', ''b''], [''c'']]\<close>
    by (simp add: eval_defs)
  show ?thesis
    using t non_rectangular_rejects [OF t, of "[''c'']" HeaderTrue default_callbacks]
    by simp
qed

text \<open>
  Claim C5.  The claim says that every text whose rows differ in their number
  of cells is rejected with the SyntaxError \<open>Malformed CSV\<close>.  On the text of
  the three lines \<open>a,b\<close>, empty, \<open>c\<close> the rows have two cells and one cell
  (the scan of each line on a fresh row shows them), and the code rejects
  with a TypeError instead: the empty line is skipped, the third line has
  index 2, the pushed row has index 1, and the write through \<open>cells[2]\<close>
  throws before the shape check is reached.  This is the slip of claim C2.
\<close>

theorem ragged_rows_after_empty_line:
  \<open>split_lines ''a,b\<newline>\<newline>c'' = [''a,b'', [], ''c'']
   \<and> scan_line '','' DQUOTE ''a,b'' \<lparr>result = Some [[]], currentCell = 0, inString = False\<rparr>
       = Inr \<lparr>result = Some [''a'', ''b''], currentCell = 1, inString = False\<rparr>
   \<and> scan_line '','' DQUOTE ''c'' \<lparr>result = Some [[]], currentCell = 0, inString = False\<rparr>
       = Inr \<lparr>result = Some [''c''], currentCell = 0, inString = False\<rparr>
   \<and> tokenize ''a,b\<newline>\<newline>c'' '','' DoubleQuote = Inl TypeError
   \<and> parseCSV ''a,b\<newline>\<newline>c'' '','' HeaderTrue DoubleQuote default_callbacks = Inl TypeError\<close>
  by (simp add: eval_defs)

text \<open>
  Claim C10.  For a text all of whose lines are empty (the empty text is one
  empty line), \<open>parseCSV\<close> resolves to the empty sequence of records, for
  every header option, \<open>header: true\<close> included, and all callbacks.
\<close>

theorem all_lines_empty_resolves_empty:
  "list_all (\<lambda>line. line = []) (split_lines csv) \<Longrightarrow>
     parseCSV csv separator header stringDelimiter callbacks = Inr []"
  by (cases header)
     (simp_all add: parseCSV_def parseCSV_traced_def tokenize_def
        tokenize_lines_all_empty some_row_differs_def)

theorem all_lines_empty_resolves_empty_witness:
  \<open>split_lines [] = [[]]
   \<and> parseCSV [] '','' HeaderTrue DoubleQuote default_callbacks = Inr []
   \<and> split_lines [LF, CR, LF] = [[], [], []]
   \<and> parseCSV [LF, CR, LF] '','' HeaderTrue DoubleQuote default_callbacks = Inr []\<close>
  using all_lines_empty_resolves_empty [of "[]" "'',''" HeaderTrue DoubleQuote default_callbacks]
        all_lines_empty_resolves_empty [of "[LF, CR, LF]" "'',''" HeaderTrue DoubleQuote default_callbacks]
  by (simp add: split_lines_def)

section \<open>Record projection\<close>

lemma project_cell_name_first:
  "callbacks colName = Some f \<Longrightarrow>
   project_cell callbacks line rowIdx colName colIdx =
     (case f (array_get line colIdx) (csvCellMetadataFactory (colIdx + 1) colName (rowIdx + 1)) of
        Inl e \<Rightarrow> Inl e
      | Inr v \<Rightarrow> Inr ([(colName, array_get line colIdx,
                        csvCellMetadataFactory (colIdx + 1) colName (rowIdx + 1))], v))"
  by (simp add: project_cell_def Let_def split: sum.splits)

lemma project_cell_none:
  "callbacks colName = None \<Longrightarrow> callbacks (number_to_string colIdx) = None \<Longrightarrow>
   project_cell callbacks line rowIdx colName colIdx = Inr ([], array_get line colIdx)"
  by (simp add: project_cell_def Let_def)

lemma project_cell_column:
  "project_cell callbacks line rowIdx colName colIdx = Inr (log, v) \<Longrightarrow>
   (key, raw, metadata) \<in> set log \<Longrightarrow> columnIndex metadata = colIdx + 1"
  by (auto simp: project_cell_def csvCellMetadataFactory_def Let_def
           split: option.splits sum.splits)

lemma project_entries_columns:
  "project_entries callbacks line rowIdx names c0 = Inr (log, entries) \<Longrightarrow>
   (key, raw, metadata) \<in> set log \<Longrightarrow> c0 < columnIndex metadata"
proof (induction names arbitrary: c0 log entries)
  case Nil
  then show ?case by simp
next
  case (Cons n names)
  then show ?case
    by (fastforce split: sum.splits prod.splits dest: project_cell_column)
qed

lemma project_entries_column:
  assumes "project_entries callbacks line rowIdx names c0 = Inr (log, entries)"
      and "j < length names"
  shows "\<exists>log1 v. project_cell callbacks line rowIdx (names ! j) (c0 + j) = Inr (log1, v)
            \<and> entries ! j = (names ! j, v)
            \<and> invocations_of_column (c0 + j) log = log1"
  using assms
proof (induction names arbitrary: c0 log entries j)
  case Nil
  then show ?case by simp
next
  case (Cons n names)
  from Cons.prems(1) obtain log1 v log2 entries2 where
    cell: "project_cell callbacks line rowIdx n c0 = Inr (log1, v)" and
    rest: "project_entries callbacks line rowIdx names (c0 + 1) = Inr (log2, entries2)" and
    log: "log = log1 @ log2" and entries: "entries = (n, v) # entries2"
    by (auto split: sum.splits prod.splits)
  show ?case
  proof (cases j)
    case 0
    have "filter (\<lambda>(key, raw, metadata). columnIndex metadata = c0 + 1) log1 = log1"
      using project_cell_column [OF cell] by (auto simp: filter_id_conv)
    moreover have "filter (\<lambda>(key, raw, metadata). columnIndex metadata = c0 + 1) log2 = []"
      using project_entries_columns [OF rest] by (fastforce simp: filter_empty_conv)
    ultimately show ?thesis
      using 0 cell log entries by (simp add: invocations_of_column_def)
  next
    case (Suc j')
    with Cons.prems(2) have j': "j' < length names" by simp
    from Cons.IH [OF rest j'] obtain log1' v' where
      c: "project_cell callbacks line rowIdx (names ! j') (c0 + 1 + j') = Inr (log1', v')" and
      e: "entries2 ! j' = (names ! j', v')" and
      i: "invocations_of_column (c0 + 1 + j') log2 = log1'"
      by blast
    have "filter (\<lambda>(key, raw, metadata). columnIndex metadata = c0 + 1 + j' + 1) log1 = []"
      using project_cell_column [OF cell] by (fastforce simp: filter_empty_conv)
    with c e i show ?thesis
      using Suc log entries by (simp add: invocations_of_column_def)
  qed
qed

text \<open>
  Precedence in the projection of a row that resolves, in terms of what the
  \<open>in\<close> operator sees: for a column that has a property under its name and a
  property under its index, the value of the column is the result of the
  name-keyed one, and the only invocation for the column is the one under the
  name; for a column with no property under either key, nothing is invoked
  for it and its entry is the raw cell \<open>line[colIdx]\<close>.
\<close>

theorem callback_precedence:
  assumes "project_entries callbacks line rowIdx names 0 = Inr (log, entries)"
      and "colIdx < length names"
  shows "(callbacks (names ! colIdx) = Some f \<and> callbacks (number_to_string colIdx) = Some g \<longrightarrow>
            f (array_get line colIdx)
              (csvCellMetadataFactory (colIdx + 1) (names ! colIdx) (rowIdx + 1))
              = Inr (snd (entries ! colIdx))
            \<and> invocations_of_column colIdx log =
                [(names ! colIdx, array_get line colIdx,
                  csvCellMetadataFactory (colIdx + 1) (names ! colIdx) (rowIdx + 1))])
       \<and> (callbacks (names ! colIdx) = None \<and> callbacks (number_to_string colIdx) = None \<longrightarrow>
            invocations_of_column colIdx log = []
            \<and> entries ! colIdx = (names ! colIdx, array_get line colIdx))"
proof -
  from project_entries_column [OF assms] obtain log1 v where
    c: "project_cell callbacks line rowIdx (names ! colIdx) colIdx = Inr (log1, v)" and
    e: "entries ! colIdx = (names ! colIdx, v)" and
    i: "invocations_of_column colIdx log = log1"
    by auto
  show ?thesis
    using c e i by (auto simp: project_cell_name_first project_cell_none split: sum.splits)
qed

theorem callback_precedence_witness:
  "project_entries sample_callbacks [''7'', ''x''] 0 [''id'', ''name''] 0
     = Inr ([(''id'', Str ''7'', csvCellMetadataFactory 1 ''id'' 1)],
            [(''id'', Other ''7''), (''name'', Str ''x'')])
   \<and> invocations_of_column 0 [(''id'', Str ''7'', csvCellMetadataFactory 1 ''id'' 1)]
       = [(''id'', Str ''7'', csvCellMetadataFactory 1 ''id'' 1)]
   \<and> invocations_of_column 1 [(''id'', Str ''7'', csvCellMetadataFactory 1 ''id'' 1)] = []"
proof -
  have p: "project_entries sample_callbacks [''7'', ''x''] 0 [''id'', ''name''] 0
     = Inr ([(''id'', Str ''7'', csvCellMetadataFactory 1 ''id'' 1)],
            [(''id'', Other ''7''), (''name'', Str ''x'')])"
    by (simp add: sample_callbacks_def project_cell_def array_get_def Let_def
          number_to_string.simps digits_def)
  have k: "sample_callbacks ''id'' = Some (\<lambda>raw metadata. Inr (Other ''7''))
           \<and> sample_callbacks (number_to_string 0) = Some (\<lambda>raw metadata. Inl (Thrown Null))"
    by (simp add: sample_callbacks_def number_to_string.simps digits_def)
  have n: "sample_callbacks ''name'' = None \<and> sample_callbacks (number_to_string 1) = None"
    by (simp add: sample_callbacks_def number_to_string.simps digits_def)
  show ?thesis
    using p k n
      callback_precedence [OF p, of 0 "\<lambda>raw metadata. Inr (Other ''7'')"
                                      "\<lambda>raw metadata. Inl (Thrown Null)"]
      callback_precedence [OF p, of 1]
    by (simp add: array_get_def)
qed

text \<open>
  Claim C8.  The claim says that a name-keyed callback is invoked in
  preference to an index-keyed one, and that a column with no callback entry
  under either key gets the raw cell string.  The first part is what the code
  does.  For the second part the code asks \<open>colName in callbacks\<close>, which also
  holds for the properties an object inherits: with the default options and
  the default callbacks \<open>{}\<close>, which has no entry at all, the text of the two
  lines \<open>toString\<close> and \<open>x\<close> has the inherited \<open>toString\<close> invoked on the
  cell, and the record holds \<open>[object Object]\<close> where the claim has the raw
  cell \<open>x\<close>.
\<close>

theorem inherited_property_invoked:
  \<open>project_entries default_callbacks [''x''] 0 [''toString''] 0
     = Inr ([(''toString'', Str ''x'', csvCellMetadataFactory 1 ''toString'' 1)],
            [(''toString'', Str ''[object Object]'')])
   \<and> parseCSV ''toString\<newline>x'' '','' HeaderTrue DoubleQuote default_callbacks
       = Inr [[(''toString'', Str ''[object Object]'')]]\<close>
  by (simp add: eval_defs)

section \<open>Quoting and missing input\<close>

text \<open>
  Claim C3.  The claim describes the quoting for every configured delimiter.
  The code tests for the double quote, whatever the delimiter is.  With the
  single quote as delimiter, the cell \<open>it's\<close> contains the delimiter and is
  left bare, where the claim has it wrapped with the inner delimiter doubled;
  and the cell \<open>a"b\<close>, which contains neither the delimiter nor a space nor
  the separator, is wrapped, where the claim leaves it bare.
\<close>

theorem quote_cell_single_quote_delimiter:
  \<open>quote_cell '','' SingleQuote (''it'' @ [SQUOTE] @ ''s'') = ''it'' @ [SQUOTE] @ ''s''
   \<and> quote_cell '','' SingleQuote ''a"b'' = [SQUOTE] @ ''a"b'' @ [SQUOTE]\<close>
  by (simp add: quote_cell_def replace_char_def Let_def)

text \<open>With the double quote as delimiter the three cases are those of the claim.\<close>

lemma quote_cell_double_quote:
  "quote_cell [s] DoubleQuote cell =
     (if DQUOTE \<in> set cell
      then [DQUOTE] @ replace_char DQUOTE [DQUOTE, DQUOTE] cell @ [DQUOTE]
      else if SPACE \<in> set cell \<or> s \<in> set cell then [DQUOTE] @ cell @ [DQUOTE]
      else cell)"
proof -
  have single: "\<And>x. string_includes cell [x] = (x \<in> set cell)"
  proof (induction cell)
    case Nil
    show ?case by simp
  next
    case (Cons c cell)
    show ?case using Cons [of x] by (cases cell) auto
  qed
  show ?thesis by (simp add: quote_cell_def Let_def single)
qed

text \<open>
  Claim C9.  \<open>toCsv\<close> rejects with the SyntaxError \<open>data not provided\<close> when
  the data are null, undefined or the empty array; on a non-empty array it
  resolves to a text, so it does not raise that error.
\<close>

theorem toCsv_missing_input:
  "toCsv NullData separator stringDelimiter = Inl (SyntaxError ''data not provided'')
   \<and> toCsv UndefinedData separator stringDelimiter = Inl (SyntaxError ''data not provided'')
   \<and> toCsv (ArrayData []) separator stringDelimiter = Inl (SyntaxError ''data not provided'')
   \<and> (\<forall>first rest. \<exists>text.
         toCsv (ArrayData (first # rest)) separator stringDelimiter = Inr text)"
  by (simp add: toCsv_def)

section \<open>Parsing what the serializer wrote\<close>

subsection \<open>Objects keep their enumeration order\<close>

lemma array_index_inj:
  "array_index k = Some n \<Longrightarrow> array_index k' = Some n \<Longrightarrow> k = k'"
  by (auto simp: array_index_def split: if_splits)

lemma key_before_trans: "key_before a b \<Longrightarrow> key_before b c \<Longrightarrow> key_before a c"
  by (auto simp: key_before_def split: option.splits)


lemma keys_insert_index_key:
  "set (map fst (insert_index_key n k v obj)) = insert k (set (map fst obj))"
proof (induction obj)
  case Nil
  then show ?case by simp
next
  case (Cons p obj)
  obtain k' v' where p: "p = (k', v')" by (cases p)
  show ?case
    using Cons by (cases "array_index k'") (auto simp: p insert_commute)
qed

lemma distinct_insert_index_key:
  "k \<notin> set (map fst obj) \<Longrightarrow> distinct (map fst obj) \<Longrightarrow>
   distinct (map fst (insert_index_key n k v obj))"
proof (induction obj)
  case Nil
  then show ?case by simp
next
  case (Cons p obj)
  obtain k' v' where p: "p = (k', v')" by (cases p)
  show ?case
    using Cons keys_insert_index_key [of n k v obj]
    by (auto simp: p split: option.splits)
qed

lemma sorted_insert_index_key:
  "array_index k = Some n \<Longrightarrow> k \<notin> set (map fst obj) \<Longrightarrow>
   sorted_wrt key_before (map fst obj) \<Longrightarrow>
   sorted_wrt key_before (map fst (insert_index_key n k v obj))"
proof (induction obj)
  case Nil
  then show ?case by simp
next
  case (Cons p obj)
  obtain k' v' where p: "p = (k', v')" by (cases p)
  from Cons.prems have kk: "k \<noteq> k'" and nin: "k \<notin> set (map fst obj)"
    and first: "\<forall>y \<in> set (map fst obj). key_before k' y"
    and rest: "sorted_wrt key_before (map fst obj)"
    by (auto simp: p)
  show ?case
  proof (cases "array_index k'")
    case None
    then have "key_before k k'" using Cons.prems(1) by (simp add: key_before_def)
    moreover from this first have "\<forall>y \<in> set (map fst obj). key_before k y"
      by (blast intro: key_before_trans)
    ultimately show ?thesis
      using None first rest by (simp add: p)
  next
    case (Some m)
    show ?thesis
    proof (cases "m < n")
      case True
      then have "key_before k' k" using Some Cons.prems(1) by (simp add: key_before_def)
      then show ?thesis
        using Some True first Cons.IH [OF Cons.prems(1) nin rest]
          keys_insert_index_key [of n k v obj]
        by (auto simp: p)
    next
      case False
      have "m \<noteq> n" using Some Cons.prems(1) kk array_index_inj by blast
      with False have "key_before k k'" using Some Cons.prems(1) by (simp add: key_before_def)
      moreover from this first have "\<forall>y \<in> set (map fst obj). key_before k y"
        by (blast intro: key_before_trans)
      ultimately show ?thesis
        using Some False first rest by (simp add: p)
    qed
  qed
qed

lemma keys_update_in_place:
  "map fst (map (\<lambda>(k', v'). if k' = k then (k', v) else (k', v')) obj) = map fst obj"
  by (induction obj) auto

lemma canonical_object_set: "canonical obj \<Longrightarrow> canonical (object_set obj k v)"
proof (cases "k \<in> set (map fst obj)")
  case True
  assume "canonical obj"
  then show ?thesis
    using True keys_update_in_place [of k v obj]
    by (simp add: canonical_def object_set_def del: map_map)
next
  case False
  assume c: "canonical obj"
  show ?thesis
  proof (cases "array_index k")
    case None
    then have "\<forall>x \<in> set (map fst obj). key_before x k"
      by (auto simp: key_before_def split: option.splits)
    then show ?thesis
      using c False None
      by (auto simp: canonical_def object_set_def sorted_wrt_append)
  next
    case (Some n)
    then show ?thesis
      using c False distinct_insert_index_key [of k obj n v]
        sorted_insert_index_key [of k n obj v]
      by (simp add: canonical_def object_set_def)
  qed
qed

lemma canonical_foldl:
  "canonical acc \<Longrightarrow> canonical (foldl (\<lambda>obj (k, v). object_set obj k v) acc entries)"
  by (induction entries arbitrary: acc) (auto simp: canonical_object_set)

lemma canonical_fromEntries: "canonical (fromEntries entries)"
  unfolding fromEntries_def by (rule canonical_foldl) (simp add: canonical_def)




lemma keys_insert_index_key_cong:
  "map fst obj = map fst obj' \<Longrightarrow>
   map fst (insert_index_key n k v obj) = map fst (insert_index_key n k v' obj')"
proof (induction obj arbitrary: obj')
  case Nil
  then show ?case by simp
next
  case (Cons p obj)
  then obtain p' obj2 where o: "obj' = p' # obj2" by (cases obj') auto
  obtain k1 v1 where p: "p = (k1, v1)" by (cases p)
  obtain k2 v2 where p': "p' = (k2, v2)" by (cases p')
  show ?case
    using Cons.prems Cons.IH [of obj2] by (auto simp: o p p' split: option.splits)
qed

lemma keys_object_set_cong:
  "map fst obj = map fst obj' \<Longrightarrow>
   map fst (object_set obj k v) = map fst (object_set obj' k v')"
  using keys_update_in_place [of k v obj] keys_update_in_place [of k v' obj']
    keys_insert_index_key_cong [of obj obj']
  by (auto simp: object_set_def simp del: map_map split: option.splits) 

lemma keys_foldl_cong:
  "map fst acc = map fst acc' \<Longrightarrow> map fst entries = map fst entries' \<Longrightarrow>
   map fst (foldl (\<lambda>obj (k, v). object_set obj k v) acc entries)
     = map fst (foldl (\<lambda>obj (k, v). object_set obj k v) acc' entries')"
proof (induction entries arbitrary: acc acc' entries')
  case Nil
  then show ?case by simp
next
  case (Cons p entries)
  then obtain p' es where e: "entries' = p' # es" by (cases entries') auto
  obtain k v where p: "p = (k, v)" by (cases p)
  obtain k' v' where p': "p' = (k', v')" by (cases p')
  from Cons.prems e p p' have kk: "k' = k" and es: "map fst entries = map fst es" by auto
  show ?case
    using Cons.IH [OF keys_object_set_cong [OF Cons.prems(1), of k v v'] es]
    by (simp add: e p p' kk)
qed

lemma keys_fromEntries_cong:
  "map fst entries = map fst entries' \<Longrightarrow>
   object_keys (fromEntries entries) = object_keys (fromEntries entries')"
  unfolding object_keys_def fromEntries_def by (rule keys_foldl_cong) simp_all

lemma values_insert_index_key:
  "set (map snd (insert_index_key n k v obj)) = insert v (set (map snd obj))"
proof (induction obj)
  case Nil
  then show ?case by simp
next
  case (Cons p obj)
  obtain k' v' where p: "p = (k', v')" by (cases p)
  show ?case
    using Cons by (cases "array_index k'") (auto simp: p insert_commute)
qed

lemma values_update_in_place:
  "set (map snd (map (\<lambda>(k', v'). if k' = k then (k', v) else (k', v')) obj))
     \<subseteq> insert v (set (map snd obj))"
  by (induction obj) auto

lemma values_object_set:
  "set (map snd (object_set obj k v)) \<subseteq> insert v (set (map snd obj))"
proof (cases "k \<in> set (map fst obj)")
  case True
  then show ?thesis
    using values_update_in_place [of k v obj] by (simp add: object_set_def del: map_map)
next
  case False
  then show ?thesis
    by (cases "array_index k") (simp_all add: object_set_def values_insert_index_key [simplified])
qed

lemma keys_object_set:
  "set (map fst (object_set obj k v)) = insert k (set (map fst obj))"
proof (cases "k \<in> set (map fst obj)")
  case True
  then show ?thesis
    using keys_update_in_place [of k v obj]
    by (simp add: object_set_def insert_absorb del: map_map)
next
  case False
  then show ?thesis
    by (cases "array_index k") (simp_all add: object_set_def keys_insert_index_key [simplified])
qed

lemma values_foldl:
  "set (map snd (foldl (\<lambda>obj (k, v). object_set obj k v) acc entries))
     \<subseteq> set (map snd acc) \<union> set (map snd entries)"
proof (induction entries arbitrary: acc)
  case Nil
  then show ?case by simp
next
  case (Cons p entries)
  obtain k v where p: "p = (k, v)" by (cases p)
  show ?case
    using Cons.IH [of "object_set acc k v"] values_object_set [of acc k v]
    by (auto simp: p)
qed

lemma values_fromEntries:
  "set (object_values (fromEntries entries)) \<subseteq> set (map snd entries)"
  using values_foldl [of "[]" entries] by (simp add: fromEntries_def object_values_def)

lemma keys_foldl:
  "set (map fst (foldl (\<lambda>obj (k, v). object_set obj k v) acc entries))
     = set (map fst acc) \<union> set (map fst entries)"
proof (induction entries arbitrary: acc)
  case Nil
  then show ?case by simp
next
  case (Cons p entries)
  obtain k v where p: "p = (k, v)" by (cases p)
  show ?case
    using Cons.IH [of "object_set acc k v"] keys_object_set [of acc k v] by (auto simp: p)
qed


subsection \<open>The scan of a serialized row\<close>













subsection \<open>Lines of the serialized text\<close>













subsection \<open>Projection of columns without callbacks, and the characters of the cells\<close>

lemma project_entries_unkeyed:
  "list_all (\<lambda>key. callbacks key = None) names \<Longrightarrow>
   list_all (\<lambda>j. callbacks (number_to_string j) = None) [c0 ..< c0 + length names] \<Longrightarrow>
   project_entries callbacks line rowIdx names c0
     = Inr ([], zip names (map (array_get line) [c0 ..< c0 + length names]))"
proof (induction names arbitrary: c0)
  case Nil
  then show ?case by simp
next
  case (Cons n names)
  have u: "[c0 ..< c0 + length (n # names)] = c0 # [c0 + 1 ..< (c0 + 1) + length names]"
    by (simp add: upt_rec)
  from Cons.prems(2) have here: "callbacks (number_to_string c0) = None"
    and later: "list_all (\<lambda>j. callbacks (number_to_string j) = None)
                  [c0 + 1 ..< (c0 + 1) + length names]"
    unfolding u by simp_all
  from Cons.prems(1) have name: "callbacks n = None"
    and names: "list_all (\<lambda>key. callbacks key = None) names"
    by simp_all
  have "project_entries callbacks line rowIdx (n # names) c0
          = Inr ([], (n, array_get line c0)
                     # zip names (map (array_get line) [c0 + 1 ..< (c0 + 1) + length names]))"
    using Cons.IH [OF names later] project_cell_none [OF name here] by simp
  then show ?case
    unfolding u by simp
qed

lemma unkeyed_split:
  "unkeyed callbacks names =
     (list_all (\<lambda>key. callbacks key = None) names
      \<and> list_all (\<lambda>j. callbacks (number_to_string j) = None) [0 ..< length names])"
  by (auto simp: unkeyed_def list_all_iff)

lemma project_entries_full_row:
  assumes "unkeyed callbacks names" and "length line = length names"
  shows "project_entries callbacks line rowIdx names 0 = Inr ([], zip names (map Str line))"
proof -
  have "map (array_get line) [0 ..< length line] = map Str line"
    by (rule nth_equalityI) (simp_all add: array_get_def)
  then show ?thesis
    using assms project_entries_unkeyed [of callbacks names 0 line rowIdx]
    by (simp add: unkeyed_split)
qed

lemma project_rows_unkeyed:
  "unkeyed callbacks names \<Longrightarrow> list_all (\<lambda>line. length line = length names) rows \<Longrightarrow>
   project_rows callbacks (Some names) rows rowIdx
     = Inr ([], map (\<lambda>line. fromEntries (zip names (map Str line))) rows)"
  by (induction rows arbitrary: rowIdx) (simp_all add: project_entries_full_row)

lemma unkeyed_keys:
  "unkeyed callbacks names \<Longrightarrow> set keys \<subseteq> set names \<Longrightarrow> length keys \<le> length names \<Longrightarrow>
   unkeyed callbacks keys"
  by (auto simp: unkeyed_split list_all_iff)

lemma rectangular_rows:
  "\<not> some_row_differs (h # rows) \<Longrightarrow> list_all (\<lambda>line. length line = length h) rows"
  by (auto simp: some_row_differs_def list_all_iff list_ex_iff)

lemma rows_rectangular:
  "list_all (\<lambda>line. length line = length h) rows \<Longrightarrow> \<not> some_row_differs (h # rows)"
  by (auto simp: some_row_differs_def list_all_iff list_ex_iff)

lemma parseCSV_grid:
  assumes "tokenize csv separator d = Inr (h # rows)"
      and "list_all (\<lambda>line. length line = length h) rows"
      and "unkeyed callbacks h"
  shows "parseCSV csv separator HeaderTrue d callbacks
           = Inr (map (\<lambda>line. fromEntries (zip h (map Str line))) rows)"
  using assms(1) rows_rectangular [OF assms(2)]
  by (simp add: parseCSV_def parseCSV_traced_def project_rows_unkeyed [OF assms(3,2)])

lemma parseCSV_grid_inv:
  assumes "parseCSV csv separator HeaderTrue d callbacks = Inr records"
      and "records \<noteq> []"
      and "unkeyed callbacks (header_row csv separator d)"
  shows "\<exists>h rows. tokenize csv separator d = Inr (h # rows)
           \<and> unkeyed callbacks h
           \<and> list_all (\<lambda>line. length line = length h) rows
           \<and> records = map (\<lambda>line. fromEntries (zip h (map Str line))) rows"
proof (cases "tokenize csv separator d")
  case (Inl e)
  with assms(1) show ?thesis by (simp add: parseCSV_def parseCSV_traced_def)
next
  case (Inr cells)
  show ?thesis
  proof (cases cells)
    case Nil
    with Inr assms(1,2) show ?thesis
      by (simp add: parseCSV_def parseCSV_traced_def some_row_differs_def)
  next
    case (Cons h rows)
    have nd: "\<not> some_row_differs (h # rows)"
      using assms(1) Inr Cons
      by (auto simp: parseCSV_def parseCSV_traced_def split: if_splits)
    from rectangular_rows [OF nd] have all: "list_all (\<lambda>line. length line = length h) rows" .
    have un: "unkeyed callbacks h"
      using assms(3) Inr Cons by (simp add: header_row_def)
    from parseCSV_grid [OF _ all un, of csv separator d] Inr Cons assms(1)
    show ?thesis using all un by auto
  qed
qed

lemma append_char_inv:
  "scan_inv A st \<Longrightarrow> ch \<in> A \<Longrightarrow> \<exists>st'. append_char st ch = Inr st' \<and> scan_inv A st'"
proof -
  assume inv: "scan_inv A st" and ch: "ch \<in> A"
  from inv obtain row where r: "result st = Some row" and l: "currentCell st + 1 = length row"
    and a: "list_all (\<lambda>cell. set cell \<subseteq> A) row"
    by (auto simp: scan_inv_def split: option.splits)
  from l have i: "currentCell st < length row" by simp
  with a have "set (row ! currentCell st) \<subseteq> A" by (simp add: list_all_length)
  with ch have "set (row ! currentCell st @ [ch]) \<subseteq> A" by simp
  with a have "list_all (\<lambda>cell. set cell \<subseteq> A) (row[currentCell st := row ! currentCell st @ [ch]])"
    by (auto simp: list_all_iff dest!: subsetD [OF set_update_subset_insert])
  then show ?thesis
    using r l by (simp add: append_char_def scan_inv_def)
qed

lemma incrementCell_inv:
  "scan_inv A st \<Longrightarrow> \<exists>st'. incrementCell st = Inr st' \<and> scan_inv A st'"
  by (auto simp: scan_inv_def incrementCell_def split: option.splits)

lemma toggle_inv: "scan_inv A st \<Longrightarrow> scan_inv A (st\<lparr>inString := b\<rparr>)"
  by (simp add: scan_inv_def split: option.splits)

lemma scan_line_inv:
  "scan_inv A st \<Longrightarrow> set line \<subseteq> A \<Longrightarrow>
   \<exists>st'. scan_line separator delim line st = Inr st' \<and> scan_inv A st'"
proof (induction separator delim line st rule: scan_line.induct)
  case (1 separator delim st)
  then show ?case by simp
next
  case (2 separator delim ch rest st)
  from "2.prems" have ch: "ch \<in> A" and rest: "set rest \<subseteq> A" by auto
  from rest have tl: "set (tl rest) \<subseteq> A" by (cases rest) auto
  from append_char_inv [OF "2.prems"(1) ch] obtain st1 where
    a: "append_char st ch = Inr st1" and i1: "scan_inv A st1" by blast
  from incrementCell_inv [OF "2.prems"(1)] obtain st2 where
    b: "incrementCell st = Inr st2" and i2: "scan_inv A st2" by blast
  show ?case
  proof (cases "[ch] = separator")
    case True
    then show ?thesis
      using "2.IH"(1) [OF True _ a i1 rest] "2.IH"(2) [OF True _ b i2 rest] a b
      by (cases "inString st") auto
  next
    case False
    show ?thesis
    proof (cases "ch = delim")
      case True
      show ?thesis
      proof (cases "inString st \<and> rest \<noteq> [] \<and> hd rest = delim")
        case True
        then show ?thesis
          using "2.IH"(3) [OF False \<open>ch = delim\<close> True a i1 tl] False \<open>ch = delim\<close> a
          by auto
      next
        case False
        then show ?thesis
          using "2.IH"(4) [OF \<open>[ch] \<noteq> separator\<close> \<open>ch = delim\<close> False
                  toggle_inv [OF "2.prems"(1)] rest]
            \<open>[ch] \<noteq> separator\<close> \<open>ch = delim\<close>
          by auto
      qed
    next
      case False
      then show ?thesis
        using "2.IH"(5) [OF \<open>[ch] \<noteq> separator\<close> False a i1 rest] \<open>[ch] \<noteq> separator\<close> a
        by auto
    qed
  qed
qed

lemma tokenize_lines_within:
  "tokenize_lines separator delim lines i cells = Inr cells' \<Longrightarrow> length cells \<le> i \<Longrightarrow>
   list_all (row_within A) cells \<Longrightarrow> list_all (\<lambda>line. set line \<subseteq> A) lines \<Longrightarrow>
   list_all (row_within A) cells'"
proof (induction lines arbitrary: i cells)
  case Nil
  then show ?case by simp
next
  case (Cons line lines)
  show ?case
  proof (cases "line = []")
    case True
    then show ?thesis using Cons.prems Cons.IH [of "i + 1" cells] by simp
  next
    case False
    let ?pushed = "cells @ [[[]]]"
    show ?thesis
    proof (cases "i < length ?pushed")
      case True
      with Cons.prems(2) have i: "i = length cells" by simp
      have "scan_inv A \<lparr>result = Some [[]], currentCell = 0, inString = False\<rparr>"
        by (simp add: scan_inv_def)
      from scan_line_inv [OF this, of line separator delim] Cons.prems(4)
      obtain st where s: "scan_line separator delim line
          \<lparr>result = Some [[]], currentCell = 0, inString = False\<rparr> = Inr st"
        and inv: "scan_inv A st" by auto
      from inv obtain row where r: "result st = Some row"
        and l: "currentCell st + 1 = length row"
        and a: "list_all (\<lambda>cell. set cell \<subseteq> A) row"
        by (cases "result st") (auto simp: scan_inv_def)
      from l have "row \<noteq> []" by auto
      with a have rw: "row_within A row" by (simp add: row_within_def)
      have "tokenize_lines separator delim lines (i + 1) (cells @ [row]) = Inr cells'"
        using Cons.prems(1) False i s r by (simp add: Let_def)
      then show ?thesis
        using Cons.IH [of "i + 1" "cells @ [row]"] Cons.prems i rw by simp
    next
      case False
      obtain st where s: "scan_line separator delim line
          \<lparr>result = None, currentCell = 0, inString = False\<rparr> = Inr st"
        using Cons.prems(1) \<open>line \<noteq> []\<close> False
        by (auto simp: Let_def split: sum.splits)
      from scan_line_no_row [OF s] have "result st = None" by simp
      then have "tokenize_lines separator delim lines (i + 1) ?pushed = Inr cells'"
        using Cons.prems(1) \<open>line \<noteq> []\<close> False s by (simp add: Let_def)
      then show ?thesis
        using Cons.IH [of "i + 1" ?pushed] Cons.prems False
        by (simp add: row_within_def)
    qed
  qed
qed

lemma split_from_within:
  "line \<in> set (split_from cur csv) \<Longrightarrow> set line \<subseteq> set cur \<union> (set csv - {LF})"
  by (induction cur csv rule: split_from.induct) (auto split: if_splits)

lemma tokenize_within:
  assumes "tokenize csv separator d = Inr cells"
  shows "list_all (row_within (set csv - {LF})) cells"
proof -
  have "list_all (\<lambda>line. set line \<subseteq> set csv - {LF}) (split_lines csv)"
    using split_from_within [of _ "[]" csv] by (auto simp: list_all_iff split_lines_def)
  then show ?thesis
    using tokenize_lines_within [of separator "delimiter_char d" "split_lines csv" 0 "[]" cells
            "set csv - {LF}"] assms
    by (simp add: tokenize_def)
qed


subsection \<open>Records of a parse\<close>


lemma record_keys:
  "length line = length h \<Longrightarrow>
   object_keys (fromEntries (zip h (map Str line))) = object_keys (fromEntries (zip h (map Str h)))"
  by (rule keys_fromEntries_cong) simp

lemma record_values:
  assumes "length line = length h"
  shows "set (object_values (fromEntries (zip h (map Str line)))) \<subseteq> Str ` set line"
  using values_fromEntries [of "zip h (map Str line)"] assms by auto

lemma record_values_strings:
  assumes "length line = length h"
  shows "map Str (map stringify (object_values (fromEntries (zip h (map Str line)))))
           = object_values (fromEntries (zip h (map Str line)))"
proof -
  have "\<forall>v \<in> set (object_values (fromEntries (zip h (map Str line)))). Str (stringify v) = v"
    using record_values [OF assms] by auto
  then show ?thesis by (simp add: map_idI)
qed

lemma record_values_within:
  assumes "length line = length h" and "list_all (\<lambda>cell. set cell \<subseteq> A) line"
  shows "list_all (\<lambda>cell. set cell \<subseteq> A)
           (map stringify (object_values (fromEntries (zip h (map Str line)))))"
proof -
  have "\<forall>v \<in> set (object_values (fromEntries (zip h (map Str line)))). set (stringify v) \<subseteq> A"
  proof
    fix v assume "v \<in> set (object_values (fromEntries (zip h (map Str line))))"
    with record_values [OF assms(1)] obtain cell where "cell \<in> set line" and "v = Str cell"
      by blast
    with assms(2) show "set (stringify v) \<subseteq> A" by (simp add: list_all_iff)
  qed
  then show ?thesis by (simp add: list_all_iff)
qed

lemma header_keys_set:
  "set (object_keys (fromEntries (zip h (map Str h)))) = set h"
  using keys_foldl [of "[]" "zip h (map Str h)"] by (simp add: fromEntries_def object_keys_def)

lemma header_keys_length:
  "length (object_keys (fromEntries (zip h (map Str h)))) \<le> length h"
proof -
  let ?K = "object_keys (fromEntries (zip h (map Str h)))"
  have "distinct ?K"
    using canonical_fromEntries [of "zip h (map Str h)"]
    by (simp add: canonical_def object_keys_def)
  then have "length ?K = card (set ?K)" by (simp add: distinct_card)
  also have "\<dots> = card (set h)" by (simp add: header_keys_set)
  also have "\<dots> \<le> length h" by (rule card_length)
  finally show ?thesis .
qed

lemma quoting_safe_DoubleQuote: "quoting_safe DoubleQuote cell"
  by (simp add: quoting_safe_def)












text \<open>
  Under \<open>header: true\<close>, with a callbacks object that has no property under a
  name of the header row or under a column index, some of the hypotheses hold
  by themselves: every value is a string, the callbacks object has no
  property under a key of the records, no row of the serialized grid is
  empty, and no cell contains a line feed.  A text with carriage returns
  before its line feeds is within the statement.
\<close>

lemma header_true_records:
  assumes parse: "parseCSV csv separator HeaderTrue d callbacks = Inr records"
      and ne: "records \<noteq> []"
      and un: "unkeyed callbacks (header_row csv separator d)"
  shows "list_all (\<lambda>r. list_all is_string (object_values r)) records
         \<and> unkeyed callbacks (object_keys (hd records))
         \<and> list_all (\<lambda>row. row \<noteq> [] \<and> list_all (\<lambda>cell. LF \<notin> set cell) row)
              (csv_grid (hd records) records)"
proof -
  let ?A = "set csv - {LF}"
  from parseCSV_grid_inv [OF parse ne un] obtain h rows where
    tok: "tokenize csv separator d = Inr (h # rows)" and
    unh: "unkeyed callbacks h" and
    len: "list_all (\<lambda>line. length line = length h) rows" and
    recs: "records = map (\<lambda>line. fromEntries (zip h (map Str line))) rows"
    by blast
  from tokenize_within [OF tok] have hw: "row_within ?A h"
    and rw: "list_all (row_within ?A) rows" by simp_all
  define K where "K = object_keys (fromEntries (zip h (map Str h)))"
  have Kset: "set K = set h" by (simp add: K_def header_keys_set)
  have Kne: "K \<noteq> []" using Kset hw by (auto simp: row_within_def)
  have Kw: "list_all (\<lambda>cell. LF \<notin> set cell) K"
    using Kset hw by (auto simp: row_within_def list_all_iff)
  have unK: "unkeyed callbacks K"
    using unkeyed_keys [OF unh, of K] Kset header_keys_length [of h] by (simp add: K_def)
  have rec: "\<forall>r \<in> set records.
      object_keys r = K \<and> list_all is_string (object_values r)
      \<and> list_all (\<lambda>cell. LF \<notin> set cell) (map stringify (object_values r))"
  proof
    fix r assume "r \<in> set records"
    then obtain line where l: "line \<in> set rows" and r: "r = fromEntries (zip h (map Str line))"
      using recs by auto
    from l len have ll: "length line = length h" by (simp add: list_all_iff)
    from l rw have lw: "list_all (\<lambda>cell. set cell \<subseteq> ?A) line"
      by (simp add: list_all_iff row_within_def)
    have "list_all is_string (object_values r)"
      using record_values [OF ll] by (auto simp: list_all_iff r)
    moreover have "list_all (\<lambda>cell. LF \<notin> set cell) (map stringify (object_values r))"
      using record_values_within [OF ll lw] by (auto simp: list_all_iff r)
    ultimately show "object_keys r = K \<and> list_all is_string (object_values r)
      \<and> list_all (\<lambda>cell. LF \<notin> set cell) (map stringify (object_values r))"
      using record_keys [OF ll] by (simp add: r K_def)
  qed
  from ne have hd: "hd records \<in> set records" by simp
  with rec have K: "object_keys (hd records) = K" by blast
  have "\<forall>r \<in> set records. map stringify (object_values r) \<noteq> []"
  proof
    fix r assume "r \<in> set records"
    with rec have "object_keys r = K" by blast
    with Kne show "map stringify (object_values r) \<noteq> []"
      by (auto simp: object_keys_def object_values_def)
  qed
  then show ?thesis
    using rec unK Kne Kw by (simp add: K csv_grid_def list_all_iff)
qed

text \<open>
  The other hypotheses are needed as well: a carriage return at the end of a
  bare last cell merges with the line feed that \<open>toCsv\<close> writes after it;
  with the single quote as delimiter a cell with a single quote and no double
  quote is written bare (the case of claim C3); and a value that is
  \<open>undefined\<close>, as under a header list longer than the rows, is written as the
  empty cell and read back as the empty string.
\<close>

lemma carriage_return_lost:
  \<open>parseCSV (''a\<newline>x'' @ [CR, CR, LF] @ ''y'') '','' HeaderTrue DoubleQuote default_callbacks
      = Inr [[(''a'', Str (''x'' @ [CR]))], [(''a'', Str ''y'')]]
   \<and> toCsv (ArrayData [[(''a'', Str (''x'' @ [CR]))], [(''a'', Str ''y'')]]) '','' DoubleQuote
      = Inr (''a\<newline>x'' @ [CR, LF] @ ''y'')
   \<and> parseCSV (''a\<newline>x'' @ [CR, LF] @ ''y'') '','' HeaderTrue DoubleQuote default_callbacks
      = Inr [[(''a'', Str ''x'')], [(''a'', Str ''y'')]]\<close>
  by (simp add: eval_defs toCsv_def csv_grid_def object_keys_def object_values_def
        quote_cell_def)

lemma single_quote_lost:
  \<open>parseCSV (''a\<newline>'' @ [SQUOTE] @ ''it'' @ [SQUOTE, SQUOTE] @ ''s'' @ [SQUOTE]) '','' HeaderTrue SingleQuote default_callbacks
      = Inr [[(''a'', Str (''it'' @ [SQUOTE] @ ''s''))]]
   \<and> toCsv (ArrayData [[(''a'', Str (''it'' @ [SQUOTE] @ ''s''))]]) '','' SingleQuote
      = Inr (''a\<newline>it'' @ [SQUOTE] @ ''s'')
   \<and> parseCSV (''a\<newline>it'' @ [SQUOTE] @ ''s'') '','' HeaderTrue SingleQuote default_callbacks
      = Inr [[(''a'', Str ''its'')]]\<close>
  by (simp add: eval_defs toCsv_def csv_grid_def object_keys_def object_values_def
        quote_cell_def)

lemma undefined_value_lost:
  \<open>parseCSV ''1'' '','' (HeaderList [''id'', ''name'']) DoubleQuote default_callbacks
      = Inr [[(''id'', Str ''1''), (''name'', Undefined)]]
   \<and> toCsv (ArrayData [[(''id'', Str ''1''), (''name'', Undefined)]]) '','' DoubleQuote
      = Inr ''id,name\<newline>1,''
   \<and> parseCSV ''id,name\<newline>1,'' '','' HeaderTrue DoubleQuote default_callbacks
      = Inr [[(''id'', Str ''1''), (''name'', Str [])]]\<close>
  by (simp add: eval_defs toCsv_def csv_grid_def object_keys_def object_values_def
        quote_cell_def)

end
